theory Spec2Isabelle
  imports Main
begin

section \<open>HAProxy statistics to statsd: the model of \<open>ha-stats.py\<close>\<close>

text \<open>
  The script has two functions. \<open>get_ha_stats\<close> fetches the CSV statistics page over
  HTTP and wraps its lines in a \<open>csv.DictReader\<close>; \<open>push_to_statsd\<close> walks the rows and
  sends one UDP datagram per selected field. The script is Python 2: the response body
  and every string derived from it is a byte string, modelled as \<^typ>\<open>string\<close>.

  The network is the environment. What \<open>requests.get\<close> returns and whether
  \<open>socket.sendto\<close> raises are parameters of the model (record \<open>env\<close>); the datagrams
  handed to the socket are logged, in order, in the record \<open>world\<close>.
\<close>

subsection \<open>Values, errors, rows\<close>

text \<open>
  The Python values that reach the emitter: a byte string, \<open>None\<close>, or the integer
  literal of \<open>row.get(data) or 0\<close>.
\<close>

datatype pyval = PStr string | PNone | PInt int

text \<open>
  Exceptions. \<open>HTTPError\<close> is raised by \<open>raise_for_status\<close>, \<open>CsvError\<close> by the
  \<open>csv\<close> reader, \<open>KeyError\<close> by \<open>row[key]\<close>, \<open>TypeError\<close> by \<open>'.'.join\<close> on a
  non-string item; \<open>RequestException\<close> and \<open>SocketError\<close> come from the environment.
\<close>

datatype error =
    HTTPError int
  | RequestException string
  | CsvError string
  | KeyError string
  | TypeError string
  | SocketError string

text \<open>
  A row as \<open>csv.DictReader\<close> builds it: a dictionary whose string keys (the header
  names) map to a string or to \<open>None\<close> (\<open>restval\<close>), and whose key \<open>None\<close>
  (\<open>restkey\<close>), when present, maps to the list of surplus values.
\<close>

record row =
  cols :: "string \<rightharpoonup> pyval"
  rest :: "string list option"

text \<open>
  An iterable that is consumed lazily: it ends, yields an element and goes on, or
  raises while the next element is computed.
\<close>

datatype 'a iter = Stop | Yield 'a "'a iter" | Raise error

fun iter_of_list :: "'a list \<Rightarrow> 'a iter" where
  "iter_of_list [] = Stop"
| "iter_of_list (x # xs) = Yield x (iter_of_list xs)"

subsection \<open>Python primitives used by the emitter\<close>

text \<open>\<open>row[key]\<close> raises \<open>KeyError\<close> for a missing key; \<open>row.get(key)\<close> gives \<open>None\<close>.\<close>

definition getitem :: "row \<Rightarrow> string \<Rightarrow> error + pyval" where
  "getitem r k = (case cols r k of None \<Rightarrow> Inl (KeyError k) | Some v \<Rightarrow> Inr v)"

definition dict_get :: "row \<Rightarrow> string \<Rightarrow> pyval" where
  "dict_get r k = (case cols r k of None \<Rightarrow> PNone | Some v \<Rightarrow> v)"

text \<open>Truth value of a Python object, and \<open>a or b\<close>.\<close>

fun truthy :: "pyval \<Rightarrow> bool" where
  "truthy (PStr s) = (s \<noteq> [])"
| "truthy PNone = False"
| "truthy (PInt i) = (i \<noteq> 0)"

definition py_or :: "pyval \<Rightarrow> pyval \<Rightarrow> pyval" where
  "py_or a b = (if truthy a then a else b)"

text \<open>Decimal rendering of an integer, as \<open>str\<close> gives it.\<close>

definition digit_char :: "nat \<Rightarrow> char" where
  "digit_char d = char_of (48 + d)"

function str_nat :: "nat \<Rightarrow> string" where
  "str_nat n = (if n < 10 then [digit_char n] else str_nat (n div 10) @ [digit_char (n mod 10)])"
  by pat_completeness auto
termination
  by (relation "measure id") auto

declare str_nat.simps [simp del]

definition str_int :: "int \<Rightarrow> string" where
  "str_int i = (if i < 0 then CHR ''-'' # str_nat (nat (- i)) else str_nat (nat i))"

text \<open>What the conversion \<open>%s\<close> inserts for a value.\<close>

fun py_str :: "pyval \<Rightarrow> string" where
  "py_str (PStr s) = s"
| "py_str PNone = ''None''"
| "py_str (PInt i) = str_int i"

text \<open>
  \<open>'.'.join(items)\<close> on byte strings: the first item that is not a string raises
  \<open>TypeError\<close>.
\<close>

fun join_strs :: "string \<Rightarrow> string list \<Rightarrow> string" where
  "join_strs sep [] = []"
| "join_strs sep [x] = x"
| "join_strs sep (x # y # ys) = x @ sep @ join_strs sep (y # ys)"

fun all_strs :: "pyval list \<Rightarrow> error + string list" where
  "all_strs [] = Inr []"
| "all_strs (PStr s # vs) = (case all_strs vs of Inl e \<Rightarrow> Inl e | Inr ss \<Rightarrow> Inr (s # ss))"
| "all_strs (v # vs) = Inl (TypeError ''sequence item: expected string'')"

definition join :: "string \<Rightarrow> pyval list \<Rightarrow> error + string" where
  "join sep items = (case all_strs items of Inl e \<Rightarrow> Inl e | Inr ss \<Rightarrow> Inr (join_strs sep ss))"

subsection \<open>The environment and the datagram log\<close>

type_synonym address = "string \<times> int"

record response =
  status_code :: int
  content :: string

record env =
  requests_get :: "string \<Rightarrow> (string \<times> string option) option \<Rightarrow> error + response"
  udp_sendto :: "string \<Rightarrow> address \<Rightarrow> error option"

record world =
  sent :: "(string \<times> address) list"

subsection \<open>\<open>push_to_statsd\<close>\<close>

text \<open>The list of line 103, in its order.\<close>

definition stat_fields :: "string list" where
  "stat_fields = [''qcur'', ''qmax'', ''scur'', ''smax'', ''rate'', ''rate_max'',
     ''hrsp_1xx'', ''hrsp_2xx'', ''hrsp_3xx'', ''hrsp_4xx'', ''hrsp_5xx'', ''bin'', ''bout'']"

text \<open>Lines 104 to 106: the value and the payload \<open>'%s.%s:%s|g' % (name, data, value)\<close>.\<close>

definition stat_value :: "row \<Rightarrow> string \<Rightarrow> pyval" where
  "stat_value r data = py_or (dict_get r data) (PInt 0)"

definition payload :: "string \<Rightarrow> string \<Rightarrow> pyval \<Rightarrow> string" where
  "payload name data v = name @ ''.'' @ data @ '':'' @ py_str v @ ''|g''"

text \<open>
  The inner loop (lines 103 to 109) over the remaining fields. The state is the log of
  datagrams and \<open>stat_count\<close>; a raising \<open>sendto\<close> leaves the loop with what was sent.
\<close>

fun stat_loop ::
  "env \<Rightarrow> address \<Rightarrow> string \<Rightarrow> row \<Rightarrow> string list \<Rightarrow> world \<Rightarrow> int \<Rightarrow> world \<times> (error + int)" where
  "stat_loop E addr name r [] w n = (w, Inr n)"
| "stat_loop E addr name r (data # ds) w n =
     (let p = payload name data (stat_value r data) in
      case udp_sendto E p addr of
        Some e \<Rightarrow> (w, Inl e)
      | None \<Rightarrow> stat_loop E addr name r ds (w\<lparr>sent := sent w @ [(p, addr)]\<rparr>) (n + 1))"

text \<open>Line 99: \<open>name = '.'.join([namespace, row['pxname'], row['svname']])\<close>.\<close>

definition row_name :: "string \<Rightarrow> row \<Rightarrow> error + string" where
  "row_name namespace r =
     (case getitem r ''pxname'' of
        Inl e \<Rightarrow> Inl e
      | Inr px \<Rightarrow>
          (case getitem r ''svname'' of
             Inl e \<Rightarrow> Inl e
           | Inr sv \<Rightarrow> join ''.'' [PStr namespace, px, sv]))"

text \<open>The outer loop (lines 98 to 110) over the rows still to come.\<close>

fun row_loop ::
  "env \<Rightarrow> address \<Rightarrow> string \<Rightarrow> row iter \<Rightarrow> world \<Rightarrow> int \<Rightarrow> world \<times> (error + int)" where
  "row_loop E addr namespace Stop w n = (w, Inr n)"
| "row_loop E addr namespace (Raise e) w n = (w, Inl e)"
| "row_loop E addr namespace (Yield r it) w n =
     (case row_name namespace r of
        Inl e \<Rightarrow> (w, Inl e)
      | Inr name \<Rightarrow>
          (case stat_loop E addr name r stat_fields w n of
             (w', Inl e) \<Rightarrow> (w', Inl e)
           | (w', Inr n') \<Rightarrow> row_loop E addr namespace it w' n'))"

definition push_to_statsd ::
  "env \<Rightarrow> row iter \<Rightarrow> string \<Rightarrow> int \<Rightarrow> string \<Rightarrow> world \<Rightarrow> world \<times> (error + int)" where
  "push_to_statsd E rows host port namespace w = row_loop E (host, port) namespace rows w 0"

subsection \<open>String methods used by the fetcher\<close>

text \<open>
  \<open>s.lstrip(chars)\<close> removes the leading characters of \<open>s\<close> that occur in \<open>chars\<close>:
  the argument is a set of characters, not a prefix.
\<close>

definition lstrip :: "string \<Rightarrow> string \<Rightarrow> string" where
  "lstrip chars s = dropWhile (\<lambda>c. c \<in> set chars) s"

text \<open>
  \<open>s.splitlines()\<close> on a byte string: a line ends at \<open>\n\<close>, \<open>\r\<close> or \<open>\r\n\<close>,
  the line ends are dropped, and no empty line follows a final line end.
\<close>

definition LF :: char where "LF = CHR 0x0A"
definition CR :: char where "CR = CHR 0x0D"
definition NUL :: char where "NUL = CHR 0x00"

definition is_linebreak :: "char \<Rightarrow> bool" where
  "is_linebreak c = (c = LF \<or> c = CR)"

fun skip_linebreak :: "string \<Rightarrow> string" where
  "skip_linebreak [] = []"
| "skip_linebreak [c] = []"
| "skip_linebreak (c # d # cs) = (if c = CR \<and> d = LF then cs else d # cs)"

function splitlines :: "string \<Rightarrow> string list" where
  "splitlines s =
     (if s = [] then []
      else takeWhile (\<lambda>c. \<not> is_linebreak c) s
           # splitlines (skip_linebreak (dropWhile (\<lambda>c. \<not> is_linebreak c) s)))"
  by pat_completeness auto

termination
proof (relation "measure length")
  show "wf (measure length)" by simp
next
  fix s :: string
  assume nonempty: "s \<noteq> []"
  let ?d = "dropWhile (\<lambda>c. \<not> is_linebreak c) s"
  have skip: "length (skip_linebreak t) \<le> length t - 1" for t
    by (induction t rule: skip_linebreak.induct) auto
  have "length (skip_linebreak ?d) \<le> length ?d - 1" by (rule skip)
  moreover have "length ?d \<le> length s" by (rule length_dropWhile_le)
  moreover have "0 < length s" using nonempty by simp
  ultimately have "length (skip_linebreak ?d) < length s" by arith
  then show "(skip_linebreak ?d, s) \<in> measure length" by simp
qed

declare splitlines.simps [simp del]

subsection \<open>The \<open>csv\<close> reader\<close>

text \<open>
  \<open>csv.DictReader(lines)\<close> is the standard library's. Its reader is the state machine
  of \<open>_csv.c\<close> (Python 2.7), here with the default dialect \<open>excel\<close>: delimiter \<open>,\<close>,
  quote character \<open>"\<close>, doubled quotes, no escape character, no skipping of initial
  spaces, not strict. The two escape states cannot be entered without an escape
  character and are left out.
\<close>

definition delimiter :: char where "delimiter = CHR '',''"
definition quotechar :: char where "quotechar = CHR 0x22"
definition field_limit :: nat where "field_limit = 131072"

datatype ParserState =
  START_RECORD | START_FIELD | IN_FIELD | IN_QUOTED_FIELD | QUOTE_IN_QUOTED_FIELD | EAT_CRNL

record ReaderObj =
  state :: ParserState
  fieldlist :: "string list"
  field :: string

definition parse_reset :: ReaderObj where
  "parse_reset = \<lparr>state = START_RECORD, fieldlist = [], field = []\<rparr>"

definition parse_save_field :: "ReaderObj \<Rightarrow> ReaderObj" where
  "parse_save_field self = self\<lparr>fieldlist := fieldlist self @ [field self], field := []\<rparr>"

definition parse_add_char :: "ReaderObj \<Rightarrow> char \<Rightarrow> error + ReaderObj" where
  "parse_add_char self c =
     (if field_limit \<le> length (field self) then Inl (CsvError ''field larger than field limit'')
      else Inr (self\<lparr>field := field self @ [c]\<rparr>))"

text \<open>The state after an end of line: \<open>\0\<close> is the reader's own end-of-line mark.\<close>

definition after_eol :: "char \<Rightarrow> ParserState" where
  "after_eol c = (if c = NUL then START_RECORD else EAT_CRNL)"

definition start_field :: "ReaderObj \<Rightarrow> char \<Rightarrow> error + ReaderObj" where
  "start_field self c =
     (if c = LF \<or> c = CR \<or> c = NUL then Inr ((parse_save_field self)\<lparr>state := after_eol c\<rparr>)
      else if c = quotechar then Inr (self\<lparr>state := IN_QUOTED_FIELD\<rparr>)
      else if c = delimiter then Inr (parse_save_field self)
      else (case parse_add_char self c of
              Inl e \<Rightarrow> Inl e
            | Inr s \<Rightarrow> Inr (s\<lparr>state := IN_FIELD\<rparr>)))"

definition parse_process_char :: "ReaderObj \<Rightarrow> char \<Rightarrow> error + ReaderObj" where
  "parse_process_char self c =
     (case state self of
        START_RECORD \<Rightarrow>
          (if c = NUL then Inr self
           else if c = LF \<or> c = CR then Inr (self\<lparr>state := EAT_CRNL\<rparr>)
           else start_field (self\<lparr>state := START_FIELD\<rparr>) c)
      | START_FIELD \<Rightarrow> start_field self c
      | IN_FIELD \<Rightarrow>
          (if c = LF \<or> c = CR \<or> c = NUL then Inr ((parse_save_field self)\<lparr>state := after_eol c\<rparr>)
           else if c = delimiter then Inr ((parse_save_field self)\<lparr>state := START_FIELD\<rparr>)
           else parse_add_char self c)
      | IN_QUOTED_FIELD \<Rightarrow>
          (if c = NUL then Inr self
           else if c = quotechar then Inr (self\<lparr>state := QUOTE_IN_QUOTED_FIELD\<rparr>)
           else parse_add_char self c)
      | QUOTE_IN_QUOTED_FIELD \<Rightarrow>
          (if c = quotechar then
             (case parse_add_char self c of
                Inl e \<Rightarrow> Inl e
              | Inr s \<Rightarrow> Inr (s\<lparr>state := IN_QUOTED_FIELD\<rparr>))
           else if c = delimiter then Inr ((parse_save_field self)\<lparr>state := START_FIELD\<rparr>)
           else if c = LF \<or> c = CR \<or> c = NUL then
             Inr ((parse_save_field self)\<lparr>state := after_eol c\<rparr>)
           else (case parse_add_char self c of
                   Inl e \<Rightarrow> Inl e
                 | Inr s \<Rightarrow> Inr (s\<lparr>state := IN_FIELD\<rparr>)))
      | EAT_CRNL \<Rightarrow>
          (if c = LF \<or> c = CR then Inr self
           else if c = NUL then Inr (self\<lparr>state := START_RECORD\<rparr>)
           else Inl (CsvError ''new-line character seen in unquoted field'')))"

text \<open>
  One input line: every character is fed to the state machine (a NUL byte in the line
  is an error), then the end-of-line mark.
\<close>

fun process_chars :: "ReaderObj \<Rightarrow> string \<Rightarrow> error + ReaderObj" where
  "process_chars self [] = Inr self"
| "process_chars self (c # cs) =
     (if c = NUL then Inl (CsvError ''line contains NULL byte'')
      else (case parse_process_char self c of
              Inl e \<Rightarrow> Inl e
            | Inr s \<Rightarrow> process_chars s cs))"

definition process_line :: "ReaderObj \<Rightarrow> string \<Rightarrow> error + ReaderObj" where
  "process_line self line =
     (case process_chars self line of
        Inl e \<Rightarrow> Inl e
      | Inr s \<Rightarrow> parse_process_char s NUL)"

text \<open>
  The records the reader yields from the remaining input lines. A record is complete
  when a line leaves the machine in \<open>START_RECORD\<close>; otherwise the next line continues
  it. At the end of the input a pending field or an open quote still gives a record.
\<close>

fun reader_iter :: "ReaderObj \<Rightarrow> string list \<Rightarrow> string list iter" where
  "reader_iter self [] =
     (if field self \<noteq> [] \<or> state self = IN_QUOTED_FIELD
      then Yield (fieldlist (parse_save_field self)) Stop
      else Stop)"
| "reader_iter self (line # input) =
     (case process_line self line of
        Inl e \<Rightarrow> Raise e
      | Inr s \<Rightarrow>
          (if state s \<noteq> START_RECORD then reader_iter s input
           else Yield (fieldlist s) (reader_iter parse_reset input)))"

definition reader :: "string list \<Rightarrow> string list iter" where
  "reader f = reader_iter parse_reset f"

subsection \<open>\<open>csv.DictReader\<close>\<close>

text \<open>
  \<open>dict(zip(fieldnames, row))\<close>, then the surplus values under the key \<open>None\<close> or the
  missing ones as \<open>None\<close>.
\<close>

definition dict_zip :: "string list \<Rightarrow> string list \<Rightarrow> (string \<rightharpoonup> pyval)" where
  "dict_zip ks vs = fold (\<lambda>(k, v) d. d(k \<mapsto> PStr v)) (zip ks vs) Map.empty"

definition make_row :: "string list \<Rightarrow> string list \<Rightarrow> row" where
  "make_row fieldnames r =
     (let d = dict_zip fieldnames r; lf = length fieldnames; lr = length r in
      if lf < lr then \<lparr>cols = d, rest = Some (drop lf r)\<rparr>
      else if lr < lf then
        \<lparr>cols = fold (\<lambda>key d. d(key \<mapsto> PNone)) (drop lr fieldnames) d, rest = None\<rparr>
      else \<lparr>cols = d, rest = None\<rparr>)"

text \<open>The rows after the header: empty records are skipped.\<close>

fun DictReader_next :: "string list \<Rightarrow> string list iter \<Rightarrow> row iter" where
  "DictReader_next fieldnames Stop = Stop"
| "DictReader_next fieldnames (Raise e) = Raise e"
| "DictReader_next fieldnames (Yield r it) =
     (if r = [] then DictReader_next fieldnames it
      else Yield (make_row fieldnames r) (DictReader_next fieldnames it))"

text \<open>The first record, whatever it is, gives the field names.\<close>

definition DictReader :: "string list \<Rightarrow> row iter" where
  "DictReader f =
     (case reader f of
        Stop \<Rightarrow> Stop
      | Raise e \<Rightarrow> Raise e
      | Yield fieldnames it \<Rightarrow> DictReader_next fieldnames it)"

subsection \<open>\<open>get_ha_stats\<close> and one pass of the main loop\<close>

text \<open>\<open>Response.raise_for_status\<close> raises for the client and server error codes.\<close>

definition raise_for_status :: "response \<Rightarrow> error option" where
  "raise_for_status i =
     (if 400 \<le> status_code i \<and> status_code i < 600 then Some (HTTPError (status_code i))
      else None)"

text \<open>Lines 80 to 82: credentials are attached when \<open>user\<close> is a non-empty string.\<close>

definition basic_auth :: "string option \<Rightarrow> string option \<Rightarrow> (string \<times> string option) option" where
  "basic_auth user password =
     (case user of
        None \<Rightarrow> None
      | Some u \<Rightarrow> if u \<noteq> [] then Some (u, password) else None)"

definition get_ha_stats :: "env \<Rightarrow> string \<Rightarrow> string option \<Rightarrow> string option \<Rightarrow> error + row iter" where
  "get_ha_stats E url user password =
     (let auth = basic_auth user password in
      case requests_get E url auth of
        Inl e \<Rightarrow> Inl e
      | Inr i \<Rightarrow>
          (case raise_for_status i of
             Some e \<Rightarrow> Inl e
           | None \<Rightarrow> Inr (DictReader (splitlines (lstrip ''# '' (content i))))))"

text \<open>
  Lines 147 to 156: the rows of \<open>get_ha_stats\<close> go straight into \<open>push_to_statsd\<close>; an
  exception of either ends the pass.
\<close>

definition main_cycle ::
  "env \<Rightarrow> string \<Rightarrow> string option \<Rightarrow> string option \<Rightarrow> string \<Rightarrow> string \<Rightarrow> int \<Rightarrow> world
     \<Rightarrow> world \<times> (error + int)" where
  "main_cycle E url user password namespace host port w =
     (case get_ha_stats E url user password of
        Inl e \<Rightarrow> (w, Inl e)
      | Inr get_stats \<Rightarrow> push_to_statsd E get_stats host port namespace w)"

subsection \<open>Notions used to state the properties\<close>

text \<open>
  A row has a string under a key; the string found there. A row is \<open>named\<close> when both
  name components are strings, and then \<open>metric_name\<close> is the dotted prefix of its metrics.
  \<open>row_datagrams\<close> lists, in the order of \<open>stat_fields\<close>, what one row puts on the wire.
  \<open>accepts\<close> says that \<open>sendto\<close> never raises for a destination.
\<close>

definition has_str :: "row \<Rightarrow> string \<Rightarrow> bool" where
  "has_str r k = (case cols r k of Some (PStr s) \<Rightarrow> True | _ \<Rightarrow> False)"

definition str_at :: "row \<Rightarrow> string \<Rightarrow> string" where
  "str_at r k = (case cols r k of Some (PStr s) \<Rightarrow> s | _ \<Rightarrow> [])"

definition named :: "row \<Rightarrow> bool" where
  "named r = (has_str r ''pxname'' \<and> has_str r ''svname'')"

definition metric_name :: "string \<Rightarrow> row \<Rightarrow> string" where
  "metric_name namespace r = namespace @ ''.'' @ str_at r ''pxname'' @ ''.'' @ str_at r ''svname''"

definition row_datagrams :: "string \<Rightarrow> address \<Rightarrow> row \<Rightarrow> (string \<times> address) list" where
  "row_datagrams namespace addr r =
     map (\<lambda>data. (payload (metric_name namespace r) data (stat_value r data), addr)) stat_fields"

definition accepts :: "env \<Rightarrow> address \<Rightarrow> bool" where
  "accepts E addr = (\<forall>p. udp_sendto E p addr = None)"


text \<open>
  \<open>record_of\<close> is the record a line gives when it is read on its own, from a fresh
  reader: \<open>None\<close> when the reader raises or the line leaves a quoted field open.
  \<open>strip_marker\<close> is the stripping step in the words of the specification: exactly the
  two characters \<open>#\<close> and space are removed when the body starts with them.
  \<open>new_datagrams\<close> is what a run added to the log.
\<close>

definition record_of :: "string \<Rightarrow> string list option" where
  "record_of line =
     (case process_line parse_reset line of
        Inl e \<Rightarrow> None
      | Inr s \<Rightarrow> if state s = START_RECORD then Some (fieldlist s) else None)"

definition strip_marker :: "string \<Rightarrow> string" where
  "strip_marker body = (if take 2 body = ''# '' then drop 2 body else body)"


text \<open>
  A line of \<open>plain\<close> characters (no quote, no NUL, no line end) and its pieces between
  the commas.
\<close>

definition plain :: "char \<Rightarrow> bool" where
  "plain c = (c \<noteq> quotechar \<and> c \<noteq> NUL \<and> c \<noteq> LF \<and> c \<noteq> CR)"

fun split_from :: "string \<Rightarrow> string \<Rightarrow> string list" where
  "split_from cur [] = [cur]"
| "split_from cur (c # cs) =
     (if c = delimiter then cur # split_from [] cs else split_from (cur @ [c]) cs)"

definition split_commas :: "string \<Rightarrow> string list" where
  "split_commas line = (if line = [] then [] else split_from [] line)"

subsection \<open>Example inputs\<close>

text \<open>
  A sink that takes every datagram, a frontend row with two metric columns (one of them
  empty), and a row without \<open>pxname\<close>.
\<close>

definition sink_ok :: env where
  "sink_ok = \<lparr>requests_get = (\<lambda>url auth. Inl (RequestException ''unreachable'')),
               udp_sendto = (\<lambda>p addr. None)\<rparr>"

definition web_row :: row where
  "web_row = \<lparr>cols = [''pxname'' \<mapsto> PStr ''web'', ''svname'' \<mapsto> PStr ''FRONTEND'',
                      ''bin'' \<mapsto> PStr ''4096'', ''bout'' \<mapsto> PStr []],
              rest = None\<rparr>"

definition anon_row :: row where
  "anon_row = \<lparr>cols = [''svname'' \<mapsto> PStr ''BACKEND'', ''qcur'' \<mapsto> PStr ''7''], rest = None\<rparr>"


text \<open>
  A server that answers every request with the same response, behind a sink that takes
  every datagram; a not-modified answer, a server error, a body whose data lines are
  shorter and longer than the header, and a well-formed body.
\<close>

definition answering :: "response \<Rightarrow> env" where
  "answering resp = \<lparr>requests_get = (\<lambda>url auth. Inr resp), udp_sendto = (\<lambda>p addr. None)\<rparr>"



definition resp_ragged :: response where
  "resp_ragged = \<lparr>status_code = 200,
     content = ''# pxname,svname,qcur\<newline>web,FRONTEND\<newline>db,BACKEND,1,2\<newline>''\<rparr>"

definition resp_ok :: response where
  "resp_ok = \<lparr>status_code = 200,
     content = ''# pxname,svname,bin\<newline>web,FRONTEND,4096\<newline>db,BACKEND,12\<newline>''\<rparr>"

section \<open>The emitter\<close>

subsection \<open>Auxiliary facts\<close>

lemma stat_loop_ok:
  "accepts E addr \<Longrightarrow>
   stat_loop E addr name r ds w n =
     (w\<lparr>sent := sent w @ map (\<lambda>d. (payload name d (stat_value r d), addr)) ds\<rparr>,
      Inr (n + int (length ds)))"
  by (induction ds arbitrary: w n) (simp_all add: accepts_def Let_def)

lemma row_name_ok: "named r \<Longrightarrow> row_name namespace r = Inr (metric_name namespace r)"
  by (auto simp: named_def has_str_def row_name_def getitem_def metric_name_def str_at_def join_def
      split: option.splits pyval.splits)

lemma length_stat_fields: "length stat_fields = 13"
  by (simp add: stat_fields_def)

lemma length_row_datagrams: "length (row_datagrams namespace addr r) = 13"
  by (simp add: row_datagrams_def length_stat_fields)

lemma row_loop_prefix:
  "accepts E addr \<Longrightarrow> \<forall>r\<in>set pre. named r \<Longrightarrow>
   row_loop E addr namespace (foldr Yield pre it) w n =
     row_loop E addr namespace it
       (w\<lparr>sent := sent w @ concat (map (row_datagrams namespace addr) pre)\<rparr>)
       (n + 13 * int (length pre))"
proof (induction pre arbitrary: w n)
  case Nil
  then show ?case by simp
next
  case (Cons r pre)
  have nm: "row_name namespace r = Inr (metric_name namespace r)"
    using Cons.prems(2) by (simp add: row_name_ok)
  have sl: "stat_loop E addr (metric_name namespace r) r stat_fields w n =
      (w\<lparr>sent := sent w @ row_datagrams namespace addr r\<rparr>, Inr (n + 13))"
    using stat_loop_ok [OF Cons.prems(1)] by (simp add: row_datagrams_def length_stat_fields)
  have "row_loop E addr namespace (foldr Yield (r # pre) it) w n =
      row_loop E addr namespace (foldr Yield pre it)
        (w\<lparr>sent := sent w @ row_datagrams namespace addr r\<rparr>) (n + 13)"
    by (simp add: nm sl)
  also have "\<dots> = row_loop E addr namespace it
       (w\<lparr>sent := sent w @ concat (map (row_datagrams namespace addr) (r # pre))\<rparr>)
       (n + 13 * int (length (r # pre)))"
    using Cons.IH [OF Cons.prems(1)] Cons.prems(2) by (simp add: algebra_simps)
  finally show ?case .
qed

lemma iter_of_list_foldr: "iter_of_list xs = foldr Yield xs Stop"
  by (induction xs) simp_all

lemma push_list:
  "accepts E (host, port) \<Longrightarrow> \<forall>r\<in>set rows. named r \<Longrightarrow>
   push_to_statsd E (iter_of_list rows) host port namespace w =
     (w\<lparr>sent := sent w @ concat (map (row_datagrams namespace (host, port)) rows)\<rparr>,
      Inr (13 * int (length rows)))"
  by (simp add: push_to_statsd_def iter_of_list_foldr row_loop_prefix)

lemma nth_concat_blocks:
  "\<forall>xs\<in>set xss. length xs = k \<Longrightarrow> i < length xss \<Longrightarrow> j < k \<Longrightarrow>
   concat xss ! (k * i + j) = xss ! i ! j"
proof (induction xss arbitrary: i)
  case Nil
  then show ?case by simp
next
  case (Cons xs xss)
  show ?case
  proof (cases i)
    case 0
    then show ?thesis using Cons.prems by (simp add: nth_append)
  next
    case (Suc i')
    have "k * i + j = length xs + (k * i' + j)" using Suc Cons.prems(1) by simp
    then show ?thesis using Cons Suc by (simp add: nth_append)
  qed
qed

lemma accepts_sink_ok: "accepts sink_ok addr"
  by (simp add: accepts_def sink_ok_def)

lemma named_web_row: "named web_row"
  by (simp add: named_def has_str_def web_row_def)

lemma length_concat_datagrams:
  "length (concat (map (row_datagrams namespace addr) rows)) = 13 * length rows"
  by (induction rows) (simp_all add: length_row_datagrams)

lemma push_list_nth:
  assumes "accepts E (host, port)" and "\<forall>r\<in>set rows. named r"
    and "i < length rows" and "j < 13"
  shows "sent (fst (push_to_statsd E (iter_of_list rows) host port namespace w))
           ! (length (sent w) + (13 * i + j)) =
         (payload (metric_name namespace (rows ! i)) (stat_fields ! j)
            (stat_value (rows ! i) (stat_fields ! j)), (host, port))"
proof -
  let ?blocks = "map (row_datagrams namespace (host, port)) rows"
  have "sent (fst (push_to_statsd E (iter_of_list rows) host port namespace w))
          ! (length (sent w) + (13 * i + j)) = concat ?blocks ! (13 * i + j)"
    using assms(1,2) by (simp add: push_list)
  also have "\<dots> = ?blocks ! i ! j"
    using assms(3,4) by (intro nth_concat_blocks) (simp_all add: length_row_datagrams)
  also have "\<dots> = (payload (metric_name namespace (rows ! i)) (stat_fields ! j)
            (stat_value (rows ! i) (stat_fields ! j)), (host, port))"
    using assms(3,4) by (simp add: row_datagrams_def length_stat_fields)
  finally show ?thesis .
qed

lemma str_int_0: "str_int 0 = ''0''"
  by code_simp


subsection \<open>Claims about \<open>push_to_statsd\<close>\<close>

text \<open>
  Claim C2. For every sequence of rows that carry \<open>pxname\<close> and \<open>svname\<close>,
  \<open>push_to_statsd\<close> hands exactly \<open>len(rows) * 13\<close> datagrams to the socket and returns
  that number, whichever metric fields the rows lack (no hypothesis mentions them). The
  socket is assumed not to raise.
\<close>

theorem emit_count:
  assumes "accepts E (host, port)" and "\<forall>r\<in>set rows. named r"
  shows "snd (push_to_statsd E (iter_of_list rows) host port namespace w)
           = Inr (int (length rows) * 13)
         \<and> length (sent (fst (push_to_statsd E (iter_of_list rows) host port namespace w)))
           = length (sent w) + length rows * 13"
  using assms by (simp add: push_list length_concat_datagrams)

theorem emit_count_witness:
  "accepts sink_ok (''127.0.0.1'', 8125) \<and> named web_row
   \<and> snd (push_to_statsd sink_ok (iter_of_list [web_row, web_row]) ''127.0.0.1'' 8125
           ''haproxy'' \<lparr>sent = []\<rparr>) = Inr 26
   \<and> length (sent (fst (push_to_statsd sink_ok (iter_of_list [web_row, web_row])
           ''127.0.0.1'' 8125 ''haproxy'' \<lparr>sent = []\<rparr>))) = 26"
  using emit_count [of sink_ok "''127.0.0.1''" 8125 "[web_row, web_row]" "''haproxy''"
      "\<lparr>sent = []\<rparr>"]
  by (simp add: accepts_sink_ok named_web_row)

text \<open>
  Claim C8. The datagrams leave in row order and, inside a row, in the order of the
  list of line 103: the payloads appended to the log are the concatenation, over the rows
  in input order, of the thirteen payloads of each row in list order.
\<close>

theorem emit_order:
  assumes "accepts E (host, port)" and "\<forall>r\<in>set rows. named r"
  shows "map fst (sent (fst (push_to_statsd E (iter_of_list rows) host port namespace w))) =
         map fst (sent w) @
         concat (map (\<lambda>r. map (\<lambda>data. payload (metric_name namespace r) data (stat_value r data))
           [''qcur'', ''qmax'', ''scur'', ''smax'', ''rate'', ''rate_max'', ''hrsp_1xx'',
            ''hrsp_2xx'', ''hrsp_3xx'', ''hrsp_4xx'', ''hrsp_5xx'', ''bin'', ''bout'']) rows)"
proof -
  have "map fst (concat (map (row_datagrams namespace (host, port)) rows)) =
        concat (map (\<lambda>r. map (\<lambda>data. payload (metric_name namespace r) data (stat_value r data))
           stat_fields) rows)"
    by (induction rows) (simp_all add: row_datagrams_def comp_def)
  then show ?thesis
    using assms by (simp add: push_list stat_fields_def)
qed

theorem emit_order_witness:
  "accepts sink_ok (''127.0.0.1'', 8125) \<and> named web_row
   \<and> map fst (sent (fst (push_to_statsd sink_ok (iter_of_list [web_row]) ''127.0.0.1'' 8125
           ''haproxy'' \<lparr>sent = []\<rparr>))) =
       [''haproxy.web.FRONTEND.qcur:0|g'', ''haproxy.web.FRONTEND.qmax:0|g'',
        ''haproxy.web.FRONTEND.scur:0|g'', ''haproxy.web.FRONTEND.smax:0|g'',
        ''haproxy.web.FRONTEND.rate:0|g'', ''haproxy.web.FRONTEND.rate_max:0|g'',
        ''haproxy.web.FRONTEND.hrsp_1xx:0|g'', ''haproxy.web.FRONTEND.hrsp_2xx:0|g'',
        ''haproxy.web.FRONTEND.hrsp_3xx:0|g'', ''haproxy.web.FRONTEND.hrsp_4xx:0|g'',
        ''haproxy.web.FRONTEND.hrsp_5xx:0|g'', ''haproxy.web.FRONTEND.bin:4096|g'',
        ''haproxy.web.FRONTEND.bout:0|g'']"
proof -
  have mn: "metric_name ''haproxy'' web_row = ''haproxy.web.FRONTEND''"
    by (simp add: metric_name_def str_at_def web_row_def)
  have sv: "stat_value web_row ''qcur'' = PInt 0" "stat_value web_row ''qmax'' = PInt 0"
    "stat_value web_row ''scur'' = PInt 0" "stat_value web_row ''smax'' = PInt 0"
    "stat_value web_row ''rate'' = PInt 0" "stat_value web_row ''rate_max'' = PInt 0"
    "stat_value web_row ''hrsp_1xx'' = PInt 0" "stat_value web_row ''hrsp_2xx'' = PInt 0"
    "stat_value web_row ''hrsp_3xx'' = PInt 0" "stat_value web_row ''hrsp_4xx'' = PInt 0"
    "stat_value web_row ''hrsp_5xx'' = PInt 0" "stat_value web_row ''bin'' = PStr ''4096''"
    "stat_value web_row ''bout'' = PInt 0"
    by (simp_all add: stat_value_def dict_get_def py_or_def web_row_def)
  show ?thesis
    using emit_order [of sink_ok "''127.0.0.1''" 8125 "[web_row]" "''haproxy''" "\<lparr>sent = []\<rparr>"]
    by (simp add: accepts_sink_ok named_web_row mn sv payload_def str_int_0)
qed

text \<open>
  Claim C1. The datagram of field \<open>j\<close> of row \<open>i\<close> is
  \<open><namespace>.<pxname>.<svname>.<field>:<value>|g\<close>, sent to \<open>(host, port)\<close>, and a
  non-empty value string of the row is embedded as it is. The witness is the example of
  the specification: \<open>haproxy.web.FRONTEND.bin:4096|g\<close>.
\<close>

theorem payload_format:
  assumes "accepts E (host, port)" and "\<forall>r\<in>set rows. named r"
    and "i < length rows" and "j < 13"
    and "cols (rows ! i) ''pxname'' = Some (PStr px)"
    and "cols (rows ! i) ''svname'' = Some (PStr sv)"
  shows "sent (fst (push_to_statsd E (iter_of_list rows) host port namespace w))
           ! (length (sent w) + (13 * i + j)) =
         (namespace @ ''.'' @ px @ ''.'' @ sv @ ''.'' @ stat_fields ! j @ '':''
            @ py_str (stat_value (rows ! i) (stat_fields ! j)) @ ''|g'', (host, port))
         \<and> (\<forall>v. cols (rows ! i) (stat_fields ! j) = Some (PStr v) \<and> v \<noteq> [] \<longrightarrow>
              py_str (stat_value (rows ! i) (stat_fields ! j)) = v)"
proof
  have "metric_name namespace (rows ! i) = namespace @ ''.'' @ px @ ''.'' @ sv"
    using assms(5,6) by (simp add: metric_name_def str_at_def)
  then show "sent (fst (push_to_statsd E (iter_of_list rows) host port namespace w))
           ! (length (sent w) + (13 * i + j)) =
         (namespace @ ''.'' @ px @ ''.'' @ sv @ ''.'' @ stat_fields ! j @ '':''
            @ py_str (stat_value (rows ! i) (stat_fields ! j)) @ ''|g'', (host, port))"
    using push_list_nth [OF assms(1-4)] by (simp add: payload_def)
next
  show "\<forall>v. cols (rows ! i) (stat_fields ! j) = Some (PStr v) \<and> v \<noteq> [] \<longrightarrow>
              py_str (stat_value (rows ! i) (stat_fields ! j)) = v"
    by (simp add: stat_value_def dict_get_def py_or_def)
qed

theorem payload_format_witness:
  "accepts sink_ok (''127.0.0.1'', 8125) \<and> named web_row
   \<and> (0::nat) < length [web_row] \<and> (11::nat) < 13
   \<and> cols ([web_row] ! 0) ''pxname'' = Some (PStr ''web'')
   \<and> cols ([web_row] ! 0) ''svname'' = Some (PStr ''FRONTEND'')
   \<and> cols ([web_row] ! 0) (stat_fields ! 11) = Some (PStr ''4096'')
   \<and> sent (fst (push_to_statsd sink_ok (iter_of_list [web_row]) ''127.0.0.1'' 8125
           ''haproxy'' \<lparr>sent = []\<rparr>)) ! 11 =
       (''haproxy.web.FRONTEND.bin:4096|g'', (''127.0.0.1'', 8125))"
proof -
  have f: "stat_fields ! 11 = ''bin''" by (simp add: stat_fields_def)
  have c: "cols web_row ''pxname'' = Some (PStr ''web'')"
    "cols web_row ''svname'' = Some (PStr ''FRONTEND'')"
    "cols web_row ''bin'' = Some (PStr ''4096'')"
    by (simp_all add: web_row_def)
  show ?thesis
    using payload_format [of sink_ok "''127.0.0.1''" 8125 "[web_row]" 0 11 "''web''"
        "''FRONTEND''" "''haproxy''" "\<lparr>sent = []\<rparr>"]
    by (simp add: accepts_sink_ok named_web_row f c)
qed

text \<open>
  Claim C3. When the field is absent from the row, or empty, or \<open>None\<close>, its datagram
  is still sent, with the value \<open>0\<close>: \<open><name>.<field>:0|g\<close>. The witness is a row
  without \<open>qcur\<close>.
\<close>

theorem zero_fill:
  assumes "accepts E (host, port)" and "\<forall>r\<in>set rows. named r"
    and "i < length rows" and "j < 13"
    and "cols (rows ! i) (stat_fields ! j) = None
         \<or> cols (rows ! i) (stat_fields ! j) = Some (PStr [])
         \<or> cols (rows ! i) (stat_fields ! j) = Some PNone"
  shows "sent (fst (push_to_statsd E (iter_of_list rows) host port namespace w))
           ! (length (sent w) + (13 * i + j)) =
         (metric_name namespace (rows ! i) @ ''.'' @ stat_fields ! j @ '':0|g'', (host, port))"
proof -
  have "stat_value (rows ! i) (stat_fields ! j) = PInt 0"
    using assms(5) by (auto simp: stat_value_def dict_get_def py_or_def)
  then show ?thesis
    using push_list_nth [OF assms(1-4)] by (simp add: payload_def str_int_0)
qed

theorem zero_fill_witness:
  "accepts sink_ok (''127.0.0.1'', 8125) \<and> named web_row
   \<and> (0::nat) < length [web_row] \<and> (0::nat) < 13
   \<and> stat_fields ! 0 = ''qcur'' \<and> cols ([web_row] ! 0) (stat_fields ! 0) = None
   \<and> sent (fst (push_to_statsd sink_ok (iter_of_list [web_row]) ''127.0.0.1'' 8125
           ''haproxy'' \<lparr>sent = []\<rparr>)) ! 0 =
       (''haproxy.web.FRONTEND.qcur:0|g'', (''127.0.0.1'', 8125))"
proof -
  have f: "stat_fields ! 0 = ''qcur''" by (simp add: stat_fields_def)
  have c: "cols web_row ''qcur'' = None" by (simp add: web_row_def)
  have mn: "metric_name ''haproxy'' web_row = ''haproxy.web.FRONTEND''"
    by (simp add: metric_name_def str_at_def web_row_def)
  show ?thesis
    using zero_fill [of sink_ok "''127.0.0.1''" 8125 "[web_row]" 0 0 "''haproxy''"
        "\<lparr>sent = []\<rparr>"]
    by (simp add: accepts_sink_ok named_web_row f c mn)
qed

text \<open>
  Claim C10. Zero-fill does not reach the name components. At the first row without
  the key \<open>pxname\<close> or \<open>svname\<close> the function raises \<open>KeyError\<close> for that key; the log
  holds the datagrams of the rows before it and nothing of that row or of the rows after
  it.
\<close>

theorem missing_name_raises:
  assumes "accepts E (host, port)" and "\<forall>r\<in>set pre. named r"
    and "cols bad ''pxname'' = None \<or> cols bad ''svname'' = None"
  shows "push_to_statsd E (iter_of_list (pre @ bad # post)) host port namespace w =
         (w\<lparr>sent := sent w @ concat (map (row_datagrams namespace (host, port)) pre)\<rparr>,
          Inl (KeyError (if cols bad ''pxname'' = None then ''pxname'' else ''svname'')))"
proof -
  have "row_name namespace bad =
      Inl (KeyError (if cols bad ''pxname'' = None then ''pxname'' else ''svname''))"
    using assms(3) by (auto simp: row_name_def getitem_def split: option.splits)
  moreover have "iter_of_list (pre @ bad # post) = foldr Yield pre (Yield bad (iter_of_list post))"
    by (induction pre) simp_all
  ultimately show ?thesis
    using assms(1,2) by (simp add: push_to_statsd_def row_loop_prefix)
qed

theorem missing_name_raises_witness:
  "accepts sink_ok (''127.0.0.1'', 8125) \<and> named web_row
   \<and> cols anon_row ''pxname'' = None
   \<and> push_to_statsd sink_ok (iter_of_list ([web_row] @ anon_row # [web_row])) ''127.0.0.1'' 8125
        ''haproxy'' \<lparr>sent = []\<rparr> =
      (\<lparr>sent = row_datagrams ''haproxy'' (''127.0.0.1'', 8125) web_row\<rparr>, Inl (KeyError ''pxname''))
   \<and> length (row_datagrams ''haproxy'' (''127.0.0.1'', 8125) web_row) = 13"
proof -
  have c: "cols anon_row ''pxname'' = None" by (simp add: anon_row_def)
  show ?thesis
    using missing_name_raises [of sink_ok "''127.0.0.1''" 8125 "[web_row]" anon_row
        "[web_row]" "''haproxy''" "\<lparr>sent = []\<rparr>"]
    by (simp add: accepts_sink_ok named_web_row c length_row_datagrams)
qed

section \<open>The fetcher\<close>

subsection \<open>Auxiliary facts about the reader\<close>

lemma reader_complete:
  "\<forall>l\<in>set ls. record_of l \<noteq> None \<Longrightarrow>
   reader ls = iter_of_list (map (\<lambda>l. the (record_of l)) ls)"
  unfolding reader_def
  by (induction ls) (auto simp: record_of_def parse_reset_def split: sum.splits if_splits)

lemma DictReader_next_list:
  "DictReader_next fieldnames (iter_of_list rs) =
   iter_of_list (map (make_row fieldnames) (filter (\<lambda>r. r \<noteq> []) rs))"
  by (induction rs) simp_all

lemma fold_zip_other:
  "k \<notin> set ks \<Longrightarrow> fold (\<lambda>(k, v) d. d(k \<mapsto> PStr v)) (zip ks vs) m k = m k"
proof (induction ks arbitrary: vs m)
  case Nil
  then show ?case by simp
next
  case (Cons a ks)
  then show ?case by (cases vs) auto
qed

lemma fold_zip_nth:
  "distinct ks \<Longrightarrow> j < length ks \<Longrightarrow> j < length vs \<Longrightarrow>
   fold (\<lambda>(k, v) d. d(k \<mapsto> PStr v)) (zip ks vs) m (ks ! j) = Some (PStr (vs ! j))"
proof (induction ks arbitrary: vs m j)
  case Nil
  then show ?case by simp
next
  case (Cons a ks)
  then obtain v vs' where vs: "vs = v # vs'" by (cases vs) auto
  show ?case
  proof (cases j)
    case 0
    have "a \<notin> set ks" using Cons.prems(1) by simp
    then have "fold (\<lambda>(k, v) d. d(k \<mapsto> PStr v)) (zip ks vs') (m(a \<mapsto> PStr v)) a
        = (m(a \<mapsto> PStr v)) a"
      by (rule fold_zip_other)
    then show ?thesis using 0 vs by (simp del: fun_upd_apply add: fun_upd_same)
  next
    case (Suc j')
    then show ?thesis using Cons vs by simp
  qed
qed

lemma dict_zip_nth:
  "distinct ks \<Longrightarrow> j < length ks \<Longrightarrow> j < length vs \<Longrightarrow>
   dict_zip ks vs (ks ! j) = Some (PStr (vs ! j))"
  by (simp add: dict_zip_def fold_zip_nth)

lemma fold_none_in:
  "k \<in> set ks \<Longrightarrow> fold (\<lambda>key d. d(key \<mapsto> PNone)) ks d k = Some PNone"
proof (induction ks arbitrary: d)
  case Nil
  then show ?case by simp
next
  case (Cons a ks)
  have other: "k \<notin> set ks \<Longrightarrow> fold (\<lambda>key d. d(key \<mapsto> PNone)) ks d' k = d' k" for d'
    by (induction ks arbitrary: d') auto
  show ?case
  proof (cases "k \<in> set ks")
    case True
    then show ?thesis using Cons.IH by simp
  next
    case False
    then have "fold (\<lambda>key d. d(key \<mapsto> PNone)) ks (d(a \<mapsto> PNone)) k = (d(a \<mapsto> PNone)) k"
      by (rule other)
    moreover have "k = a" using False Cons.prems by simp
    ultimately show ?thesis by (simp del: fun_upd_apply add: fun_upd_same)
  qed
qed

lemma fold_none_out:
  "k \<notin> set ks \<Longrightarrow> fold (\<lambda>key d. d(key \<mapsto> PNone)) ks d k = d k"
  by (induction ks arbitrary: d) auto


lemma make_row_short:
  assumes "distinct fieldnames" and "length r < length fieldnames" and "j < length fieldnames"
  shows "cols (make_row fieldnames r) (fieldnames ! j) =
           (if j < length r then Some (PStr (r ! j)) else Some PNone)
         \<and> rest (make_row fieldnames r) = None"
proof (cases "j < length r")
  case True
  have "fieldnames ! j \<notin> set (drop (length r) fieldnames)"
  proof
    assume "fieldnames ! j \<in> set (drop (length r) fieldnames)"
    then obtain i where i: "i < length fieldnames - length r"
      and eq: "drop (length r) fieldnames ! i = fieldnames ! j"
      by (auto simp: in_set_conv_nth)
    then have "fieldnames ! (length r + i) = fieldnames ! j" by simp
    moreover have "length r + i < length fieldnames" using i by simp
    ultimately have "length r + i = j"
      using assms(1,3) by (simp add: nth_eq_iff_index_eq)
    then show False using True by simp
  qed
  then show ?thesis
    using assms True by (simp add: make_row_def Let_def fold_none_out dict_zip_nth)
next
  case False
  then have "fieldnames ! j \<in> set (drop (length r) fieldnames)"
    using assms(3) by (auto simp: in_set_conv_nth intro!: exI [of _ "j - length r"])
  then show ?thesis
    using assms False by (simp add: make_row_def Let_def fold_none_in)
qed

lemma make_row_long:
  assumes "distinct fieldnames" and "length fieldnames < length r" and "j < length fieldnames"
  shows "cols (make_row fieldnames r) (fieldnames ! j) = Some (PStr (r ! j))
         \<and> rest (make_row fieldnames r) = Some (drop (length fieldnames) r)"
  using assms by (simp add: make_row_def dict_zip_nth)

lemmas csv_defs = record_of_def process_line_def parse_process_char_def start_field_def
  parse_add_char_def parse_save_field_def parse_reset_def after_eol_def field_limit_def
  NUL_def LF_def CR_def delimiter_def quotechar_def



lemma map_filter_total:
  "\<forall>l\<in>set ls. record_of l \<noteq> None \<Longrightarrow>
   List.map_filter record_of ls = map (\<lambda>l. the (record_of l)) ls"
  by (induction ls) (auto simp: List.map_filter_simps)

lemma DictReader_complete:
  assumes "record_of header = Some fieldnames" and "\<forall>l\<in>set data. record_of l \<noteq> None"
  shows "DictReader (header # data) =
         iter_of_list (map (make_row fieldnames)
           (filter (\<lambda>r. r \<noteq> []) (List.map_filter record_of data)))"
proof -
  have "\<forall>l\<in>set (header # data). record_of l \<noteq> None" using assms by simp
  then have "reader (header # data) =
      iter_of_list (map (\<lambda>l. the (record_of l)) (header # data))"
    by (rule reader_complete)
  then show ?thesis
    using assms by (simp add: DictReader_def DictReader_next_list map_filter_total)
qed

lemma fetch_general:
  assumes "requests_get E url (basic_auth user password) = Inr i"
    and "raise_for_status i = None"
    and "splitlines (lstrip ''# '' (content i)) = header # data"
    and "record_of header = Some fieldnames"
    and "\<forall>l\<in>set data. record_of l \<noteq> None"
  shows "get_ha_stats E url user password =
         Inr (iter_of_list (map (make_row fieldnames)
           (filter (\<lambda>r. r \<noteq> []) (List.map_filter record_of data))))"
  using assms(1-3) DictReader_complete [OF assms(4,5)]
  by (simp add: get_ha_stats_def)

text \<open>
  A line without quote characters that fits the field limit is a complete record on its
  own, and its fields are the pieces between its commas.
\<close>

lemma process_chars_plain:
  assumes "\<forall>c\<in>set cs. plain c" and "length cur + length cs \<le> field_limit"
    and "st = START_FIELD \<or> st = IN_FIELD" and "st = START_FIELD \<longrightarrow> cur = []"
  shows "\<exists>s'. process_chars \<lparr>state = st, fieldlist = fs, field = cur\<rparr> cs = Inr s'
           \<and> (state s' = START_FIELD \<or> state s' = IN_FIELD)
           \<and> fieldlist s' @ [field s'] = fs @ split_from cur cs"
  using assms
proof (induction cs arbitrary: st fs cur)
  case Nil
  then show ?case by simp
next
  case (Cons c cs)
  have pc: "plain c" and rest_plain: "\<forall>c\<in>set cs. plain c" using Cons.prems(1) by simp_all
  have nn: "c \<noteq> NUL" "c \<noteq> LF" "c \<noteq> CR" "c \<noteq> quotechar" using pc by (simp_all add: plain_def)
  have room: "\<not> field_limit \<le> length cur" using Cons.prems(2) by simp
  show ?case
  proof (cases "c = delimiter")
    case True
    have step: "parse_process_char \<lparr>state = st, fieldlist = fs, field = cur\<rparr> c =
        Inr \<lparr>state = START_FIELD, fieldlist = fs @ [cur], field = []\<rparr>"
      using Cons.prems(3) True nn
      by (auto simp: parse_process_char_def start_field_def parse_save_field_def)
    have "\<exists>s'. process_chars \<lparr>state = START_FIELD, fieldlist = fs @ [cur], field = []\<rparr> cs = Inr s'
           \<and> (state s' = START_FIELD \<or> state s' = IN_FIELD)
           \<and> fieldlist s' @ [field s'] = (fs @ [cur]) @ split_from [] cs"
      using rest_plain Cons.prems(2) by (intro Cons.IH) simp_all
    then show ?thesis using True nn step by simp
  next
    case False
    have step: "parse_process_char \<lparr>state = st, fieldlist = fs, field = cur\<rparr> c =
        Inr \<lparr>state = IN_FIELD, fieldlist = fs, field = cur @ [c]\<rparr>"
      using Cons.prems(3) False nn room
      by (auto simp: parse_process_char_def start_field_def parse_add_char_def)
    have "\<exists>s'. process_chars \<lparr>state = IN_FIELD, fieldlist = fs, field = cur @ [c]\<rparr> cs = Inr s'
           \<and> (state s' = START_FIELD \<or> state s' = IN_FIELD)
           \<and> fieldlist s' @ [field s'] = fs @ split_from (cur @ [c]) cs"
      using rest_plain Cons.prems(2) by (intro Cons.IH) simp_all
    then show ?thesis using False nn step by simp
  qed
qed

lemma first_char_plain:
  "plain c \<Longrightarrow> parse_process_char parse_reset c =
     parse_process_char \<lparr>state = START_FIELD, fieldlist = [], field = []\<rparr> c"
  by (simp add: parse_process_char_def parse_reset_def plain_def)

lemma eol_saves:
  "state s = START_FIELD \<or> state s = IN_FIELD \<Longrightarrow>
   parse_process_char s NUL =
     Inr \<lparr>state = START_RECORD, fieldlist = fieldlist s @ [field s], field = []\<rparr>"
  by (auto simp: parse_process_char_def start_field_def parse_save_field_def after_eol_def)

lemma record_of_plain:
  assumes "\<forall>c\<in>set line. plain c" and "length line \<le> field_limit"
  shows "record_of line = Some (split_commas line)"
proof (cases line)
  case Nil
  then show ?thesis
    by (simp add: record_of_def process_line_def parse_process_char_def parse_reset_def
        split_commas_def)
next
  case (Cons c cs)
  have "\<exists>s'. process_chars \<lparr>state = START_FIELD, fieldlist = [], field = []\<rparr> line = Inr s'
           \<and> (state s' = START_FIELD \<or> state s' = IN_FIELD)
           \<and> fieldlist s' @ [field s'] = [] @ split_from [] line"
    using assms by (intro process_chars_plain) simp_all
  then obtain s' where s': "process_chars \<lparr>state = START_FIELD, fieldlist = [], field = []\<rparr> line
      = Inr s'" "state s' = START_FIELD \<or> state s' = IN_FIELD"
      "fieldlist s' @ [field s'] = split_from [] line" by auto
  have pc: "plain c" using assms(1) Cons by simp
  then have "c \<noteq> NUL" by (simp add: plain_def)
  then have "process_chars parse_reset line = Inr s'"
    using s'(1) Cons first_char_plain [OF pc] by simp
  then show ?thesis
    using s'(2,3) eol_saves [OF s'(2)] Cons
    by (simp add: record_of_def process_line_def split_commas_def)
qed

lemma accepts_answering: "accepts (answering resp) addr"
  by (simp add: accepts_def answering_def)

lemma cycle_of_rows:
  assumes "get_ha_stats E url user password = Inr (iter_of_list rows)"
    and "accepts E (host, port)" and "\<forall>r\<in>set rows. named r"
  shows "main_cycle E url user password namespace host port w =
         (w\<lparr>sent := sent w @ concat (map (row_datagrams namespace (host, port)) rows)\<rparr>,
          Inr (13 * int (length rows)))"
  using assms by (simp add: main_cycle_def push_list)


lemma lines_ok_body: "length (splitlines (content resp_ok)) = 3"
  by code_simp




text \<open>
  Claim C5, as amended. \<open>lstrip('# ')\<close> removes the longest leading run of the
  characters \<open>#\<close> and space. When the body starts with the marker followed by a
  character that is neither, exactly the marker goes; when the body starts with neither
  character nothing changes; the strip is idempotent, so a body already stripped parses
  identically.
\<close>

theorem lstrip_marker:
  "lstrip ''# '' body = dropWhile (\<lambda>c. c = CHR ''#'' \<or> c = CHR '' '') body
   \<and> (body = ''# '' @ tail \<and> (tail = [] \<or> (hd tail \<noteq> CHR ''#'' \<and> hd tail \<noteq> CHR '' ''))
        \<longrightarrow> lstrip ''# '' body = tail)
   \<and> (body = [] \<or> (hd body \<noteq> CHR ''#'' \<and> hd body \<noteq> CHR '' '') \<longrightarrow> lstrip ''# '' body = body)
   \<and> lstrip ''# '' (lstrip ''# '' body) = lstrip ''# '' body
   \<and> DictReader (splitlines (lstrip ''# '' (lstrip ''# '' body))) =
       DictReader (splitlines (lstrip ''# '' body))"
proof -
  have idem: "lstrip ''# '' (lstrip ''# '' body) = lstrip ''# '' body"
    by (simp add: lstrip_def dropWhile_idem)
  have keep: "t = [] \<or> (hd t \<noteq> CHR ''#'' \<and> hd t \<noteq> CHR '' '') \<Longrightarrow> lstrip ''# '' t = t" for t
    by (cases t) (auto simp: lstrip_def)
  have "lstrip ''# '' (''# '' @ tail) = lstrip ''# '' tail"
    by (simp add: lstrip_def)
  then have marker: "body = ''# '' @ tail \<and> (tail = [] \<or> (hd tail \<noteq> CHR ''#'' \<and> hd tail \<noteq> CHR '' ''))
        \<longrightarrow> lstrip ''# '' body = tail"
    using keep [of tail] by auto
  have dw: "lstrip ''# '' body = dropWhile (\<lambda>c. c = CHR ''#'' \<or> c = CHR '' '') body"
    by (simp add: lstrip_def)
  show ?thesis using idem keep [of body] marker dw by simp
qed

theorem lstrip_marker_witness:
  "lstrip ''# '' ''# pxname,svname'' = ''pxname,svname''
   \<and> lstrip ''# '' ''pxname,svname'' = ''pxname,svname''"
  using lstrip_marker [of "''# pxname,svname''" "''pxname,svname''"]
    lstrip_marker [of "''pxname,svname''" "[]"]
  by simp

text \<open>
  Claim C5 as stated fails: the body \<open>#a,b\<close> does not start with the marker, yet its
  first character is removed; the body \<open># # a,b\<close> loses four characters, not two.
\<close>

theorem strip_marker_counterexample:
  "take 2 ''#a,b'' \<noteq> ''# '' \<and> lstrip ''# '' ''#a,b'' = ''a,b'' \<and> strip_marker ''#a,b'' = ''#a,b''
   \<and> lstrip ''# '' ''# # a,b'' = ''a,b'' \<and> strip_marker ''# # a,b'' = ''# a,b''"
  by (simp add: lstrip_def strip_marker_def)

subsection \<open>Status codes\<close>







subsection \<open>Column counts\<close>

lemma lines_ragged:
  "splitlines (lstrip ''# '' (content resp_ragged)) =
     [''pxname,svname,qcur'', ''web,FRONTEND'', ''db,BACKEND,1,2'']"
  by code_simp

lemma records_ragged:
  "record_of ''pxname,svname,qcur'' = Some [''pxname'', ''svname'', ''qcur'']"
  "record_of ''web,FRONTEND'' = Some [''web'', ''FRONTEND'']"
  "record_of ''db,BACKEND,1,2'' = Some [''db'', ''BACKEND'', ''1'', ''2'']"
  by (simp_all add: csv_defs)

lemma named_ragged:
  "named (make_row [''pxname'', ''svname'', ''qcur''] [''web'', ''FRONTEND''])"
  "named (make_row [''pxname'', ''svname'', ''qcur''] [''db'', ''BACKEND'', ''1'', ''2''])"
  by (simp_all add: named_def has_str_def make_row_def dict_zip_def)

lemma fetch_ragged:
  "get_ha_stats (answering resp_ragged) ''http://127.0.0.1:80/;csv'' None None =
   Inr (iter_of_list
     [make_row [''pxname'', ''svname'', ''qcur''] [''web'', ''FRONTEND''],
      make_row [''pxname'', ''svname'', ''qcur''] [''db'', ''BACKEND'', ''1'', ''2'']])"
proof -
  have h1: "requests_get (answering resp_ragged) ''http://127.0.0.1:80/;csv''
      (basic_auth None None) = Inr resp_ragged" by (simp add: answering_def)
  have h2: "raise_for_status resp_ragged = None"
    by (simp add: raise_for_status_def resp_ragged_def)
  have h5: "\<forall>l\<in>set [''web,FRONTEND'', ''db,BACKEND,1,2'']. record_of l \<noteq> None"
    by (simp add: records_ragged)
  show ?thesis
    using fetch_general [OF h1 h2 lines_ragged records_ragged(1) h5]
    by (simp add: records_ragged List.map_filter_simps)
qed

text \<open>
  Claim C7, as amended. \<open>csv.DictReader\<close> does not compare column counts. When every
  line of the stripped body is a complete CSV record, \<open>get_ha_stats\<close> yields a row for
  every non-empty data record and never raises, whatever the number of fields. A line
  shorter than the header gives a row whose missing trailing columns are \<open>None\<close>; a
  longer line gives a row that keeps the surplus values under the key \<open>None\<close>.
\<close>

theorem ragged_rows_kept:
  assumes "requests_get E url (basic_auth user password) = Inr i"
    and "raise_for_status i = None"
    and "splitlines (lstrip ''# '' (content i)) = header # data"
    and "record_of header = Some fieldnames"
    and "\<forall>l\<in>set data. record_of l \<noteq> None"
    and "distinct fieldnames"
  shows "get_ha_stats E url user password =
           Inr (iter_of_list (map (make_row fieldnames)
             (filter (\<lambda>r. r \<noteq> []) (List.map_filter record_of data))))
         \<and> (\<forall>r j. length r < length fieldnames \<and> j < length fieldnames \<longrightarrow>
              cols (make_row fieldnames r) (fieldnames ! j) =
                (if j < length r then Some (PStr (r ! j)) else Some PNone)
              \<and> rest (make_row fieldnames r) = None)
         \<and> (\<forall>r j. length fieldnames < length r \<and> j < length fieldnames \<longrightarrow>
              cols (make_row fieldnames r) (fieldnames ! j) = Some (PStr (r ! j))
              \<and> rest (make_row fieldnames r) = Some (drop (length fieldnames) r))"
  using fetch_general [OF assms(1-5)] make_row_short [OF assms(6)] make_row_long [OF assms(6)]
  by blast

theorem ragged_rows_kept_witness:
  "requests_get (answering resp_ragged) ''http://127.0.0.1:80/;csv'' (basic_auth None None)
     = Inr resp_ragged
   \<and> raise_for_status resp_ragged = None
   \<and> splitlines (lstrip ''# '' (content resp_ragged)) =
       [''pxname,svname,qcur'', ''web,FRONTEND'', ''db,BACKEND,1,2'']
   \<and> record_of ''pxname,svname,qcur'' = Some [''pxname'', ''svname'', ''qcur'']
   \<and> record_of ''web,FRONTEND'' \<noteq> None \<and> record_of ''db,BACKEND,1,2'' \<noteq> None
   \<and> distinct [''pxname'', ''svname'', ''qcur'']
   \<and> cols (make_row [''pxname'', ''svname'', ''qcur''] [''web'', ''FRONTEND''])
        ([''pxname'', ''svname'', ''qcur''] ! 2) = Some PNone
   \<and> rest (make_row [''pxname'', ''svname'', ''qcur''] [''db'', ''BACKEND'', ''1'', ''2''])
        = Some [''2'']"
proof -
  have h1: "requests_get (answering resp_ragged) ''http://127.0.0.1:80/;csv''
      (basic_auth None None) = Inr resp_ragged" by (simp add: answering_def)
  have h2: "raise_for_status resp_ragged = None"
    by (simp add: raise_for_status_def resp_ragged_def)
  have h5: "\<forall>l\<in>set [''web,FRONTEND'', ''db,BACKEND,1,2'']. record_of l \<noteq> None"
    by (simp add: records_ragged)
  have h6: "distinct [''pxname'', ''svname'', ''qcur'']" by simp
  note th = ragged_rows_kept [OF h1 h2 lines_ragged records_ragged(1) h5 h6]
  have a: "cols (make_row [''pxname'', ''svname'', ''qcur''] [''web'', ''FRONTEND''])
        ([''pxname'', ''svname'', ''qcur''] ! 2) = Some PNone"
    using th [THEN conjunct2, THEN conjunct1, rule_format, of "[''web'', ''FRONTEND'']" 2]
    by simp
  have b: "rest (make_row [''pxname'', ''svname'', ''qcur''] [''db'', ''BACKEND'', ''1'', ''2''])
        = Some [''2'']"
    using th [THEN conjunct2, THEN conjunct2, rule_format,
        of "[''db'', ''BACKEND'', ''1'', ''2'']" 0]
    by simp
  show ?thesis using h1 h2 lines_ragged records_ragged a b by simp
qed

text \<open>
  Claim C7 as stated fails: with a header of three columns, a data line of two and one of
  four, the fetch succeeds with two rows and the pass sends 26 datagrams.
\<close>

theorem column_mismatch_counterexample:
  "record_of ''pxname,svname,qcur'' = Some [''pxname'', ''svname'', ''qcur'']
   \<and> record_of ''web,FRONTEND'' = Some [''web'', ''FRONTEND'']
   \<and> record_of ''db,BACKEND,1,2'' = Some [''db'', ''BACKEND'', ''1'', ''2'']
   \<and> splitlines (lstrip ''# '' (content resp_ragged)) =
       [''pxname,svname,qcur'', ''web,FRONTEND'', ''db,BACKEND,1,2'']
   \<and> get_ha_stats (answering resp_ragged) ''http://127.0.0.1:80/;csv'' None None =
       Inr (iter_of_list
         [make_row [''pxname'', ''svname'', ''qcur''] [''web'', ''FRONTEND''],
          make_row [''pxname'', ''svname'', ''qcur''] [''db'', ''BACKEND'', ''1'', ''2'']])
   \<and> snd (main_cycle (answering resp_ragged) ''http://127.0.0.1:80/;csv'' None None ''haproxy''
        ''127.0.0.1'' 8125 \<lparr>sent = []\<rparr>) = Inr 26"
proof -
  have named: "\<forall>r\<in>set
      [make_row [''pxname'', ''svname'', ''qcur''] [''web'', ''FRONTEND''],
       make_row [''pxname'', ''svname'', ''qcur''] [''db'', ''BACKEND'', ''1'', ''2'']]. named r"
    by (simp add: named_ragged)
  show ?thesis
    using records_ragged lines_ragged fetch_ragged
      cycle_of_rows [OF fetch_ragged accepts_answering named,
        where namespace = "''haproxy''" and host = "''127.0.0.1''" and port = 8125
          and w = "\<lparr>sent = []\<rparr>"]
    by simp
qed

subsection \<open>Independence from earlier passes\<close>









end
